theory Spec2Isabelle
  imports Complex_Main "HOL-Library.Sublist"
begin

section \<open>Python values\<close>

text \<open>
  The values that travel through OM's configuration tree and through the payload
  dictionaries exchanged between nodes. A Python \<^verbatim>\<open>dict\<close> with string keys is an
  association list read with \<open>map_of\<close> (the first binding of a key is the one a lookup
  sees). A \<^verbatim>\<open>float\<close> is carried as an opaque number: only its type tag is ever
  inspected by the code modelled here.
\<close>

datatype pyval =
    PyNone
  | PyBool bool
  | PyInt int
  | PyFloat real
  | PyStr string
  | PyBytes string
  | PyList "pyval list"
  | PyDict "(string \<times> pyval) list"

type_synonym pydict = "(string \<times> pyval) list"

text \<open>\<^verbatim>\<open>k in d.keys()\<close>\<close>

definition in_keys :: "string \<Rightarrow> pydict \<Rightarrow> bool" where
  "in_keys k d = (k \<in> set (map fst d))"

text \<open>\<^verbatim>\<open>d.get(k)\<close>: the value, or \<^verbatim>\<open>None\<close> when the key is absent.\<close>

definition dict_get :: "pydict \<Rightarrow> string \<Rightarrow> pyval" where
  "dict_get d k = (case map_of d k of None \<Rightarrow> PyNone | Some v \<Rightarrow> v)"

section \<open>The collecting node (rank 0) of \<^verbatim>\<open>MpiParallelization\<close>\<close>

text \<open>
  A message on tag 0 is the tuple \<^verbatim>\<open>(payload, rank)\<close>. What the collecting node
  meets while it runs is given as a list: in the main loop each blocking
  \<^verbatim>\<open>recv\<close> either delivers a message or is broken by a \<^verbatim>\<open>KeyboardInterrupt\<close>;
  in the shutdown loop each iteration sees the answers of the two \<^verbatim>\<open>Iprobe\<close>
  calls (tag 0, then the DEAD tag), or an MPI call raises \<^verbatim>\<open>RuntimeError\<close>.
  When the list is used up the node is still blocked and has not exited.
\<close>

type_synonym message = "pydict \<times> int"

datatype recv_result = Recv message | KeyboardInterrupt

datatype probe_result = Iprobe bool bool | RuntimeError

datatype action =
    InitializeCollectingNode
  | CollectData message
  | EndProcessingOnCollectingNode
  | IsendDie int
  | RecvDiscard
  | MpiFinalize
  | MpiAbort int
  | Exit int

record collecting_node =
  mpi_size :: int
  num_nomore :: int
  num_collected_events :: int
  trace :: "action list"
  exit_status :: "int option"

definition emit :: "action \<Rightarrow> collecting_node \<Rightarrow> collecting_node" where
  "emit a s = s\<lparr>trace := trace s @ [a]\<rparr>"

definition exit_with :: "int \<Rightarrow> collecting_node \<Rightarrow> collecting_node" where
  "exit_with c s = (emit (Exit c) s)\<lparr>exit_status := Some c\<rparr>"

text \<open>\<^verbatim>\<open>range(a, b)\<close> over Python integers.\<close>

definition py_range :: "int \<Rightarrow> int \<Rightarrow> int list" where
  "py_range a b = [a..b - 1]"

text \<open>
  \<^verbatim>\<open>shutdown\<close> on rank 0, after the DIE messages have been posted: the polling loop.
  The DEAD message is only probed, never received, and every successful probe adds
  one to \<^verbatim>\<open>num_shutdown_confirm\<close>.
\<close>

fun shutdown_loop :: "int \<Rightarrow> probe_result list \<Rightarrow> collecting_node \<Rightarrow> collecting_node" where
  "shutdown_loop num_shutdown_confirm [] s = s"
| "shutdown_loop num_shutdown_confirm (RuntimeError # ps) s =
     exit_with 0 (emit (MpiAbort 0) s)"
| "shutdown_loop num_shutdown_confirm (Iprobe data dead # ps) s =
     (let s1 = (if data then emit RecvDiscard s else s);
          confirm = (if dead then num_shutdown_confirm + 1 else num_shutdown_confirm)
      in if confirm = mpi_size s1 - 1
         then exit_with 0 (emit MpiFinalize s1)
         else shutdown_loop confirm ps s1)"

definition shutdown_collecting :: "probe_result list \<Rightarrow> collecting_node \<Rightarrow> collecting_node" where
  "shutdown_collecting ps s =
     shutdown_loop 0 ps (fold (\<lambda>node_num. emit (IsendDie node_num)) (py_range 1 (mpi_size s)) s)"

text \<open>
  One pass through the body of \<^verbatim>\<open>while True\<close> on rank 0, for what \<^verbatim>\<open>recv\<close>
  brought. The statements after \<^verbatim>\<open>self.shutdown()\<close> in the interrupt handler
  are reached only if the shutdown loop is still polling, so they add nothing.
\<close>

definition collecting_step :: "probe_result list \<Rightarrow> recv_result \<Rightarrow> collecting_node \<Rightarrow> collecting_node" where
  "collecting_step ps inp s =
     (case inp of
        KeyboardInterrupt \<Rightarrow> shutdown_collecting ps s
      | Recv received_data \<Rightarrow>
          if in_keys ''end'' (fst received_data) then
            (let s1 = s\<lparr>num_nomore := num_nomore s + 1\<rparr>
             in if num_nomore s1 = mpi_size s1 - 1
                then exit_with 0 (emit MpiFinalize (emit EndProcessingOnCollectingNode s1))
                else s1)
          else
            (emit (CollectData received_data) s)
              \<lparr>num_collected_events := num_collected_events s + 1\<rparr>)"

text \<open>
  The loop: it stops when the process has exited, and also after an interrupt whose
  shutdown loop is still polling (the handler never returns to \<^verbatim>\<open>recv\<close>).
  The second component is what was never read from the channel.
\<close>

fun collecting_loop ::
  "probe_result list \<Rightarrow> recv_result list \<Rightarrow> collecting_node \<Rightarrow> collecting_node \<times> recv_result list" where
  "collecting_loop ps [] s = (s, [])"
| "collecting_loop ps (inp # ins) s =
     (let s1 = collecting_step ps inp s
      in if exit_status s1 \<noteq> None \<or> inp = KeyboardInterrupt then (s1, ins)
         else collecting_loop ps ins s1)"

text \<open>\<^verbatim>\<open>__init__\<close> and \<^verbatim>\<open>start\<close> on rank 0.\<close>

definition init_collecting :: "int \<Rightarrow> collecting_node" where
  "init_collecting pool_size =
     \<lparr>mpi_size = pool_size, num_nomore = 0, num_collected_events = 0, trace = [], exit_status = None\<rparr>"

definition start_collecting ::
  "int \<Rightarrow> recv_result list \<Rightarrow> probe_result list \<Rightarrow> collecting_node \<times> recv_result list" where
  "start_collecting pool_size ins ps =
     collecting_loop ps ins (emit InitializeCollectingNode (init_collecting pool_size))"

text \<open>The END sentinel a processing node sends last, and how rank 0 tells it apart.\<close>

definition end_dict :: pydict where
  "end_dict = [(''end'', PyBool True)]"

fun is_end :: "recv_result \<Rightarrow> bool" where
  "is_end (Recv m) = in_keys ''end'' (fst m)"
| "is_end KeyboardInterrupt = False"


text \<open>
  Readings of a run used to state properties: the messages handed to
  \<^verbatim>\<open>collect_data\<close>, the ranks that announced their end, what the shutdown loop
  may do after the DIE messages, and whether a poll saw a pending DEAD message.
\<close>

fun collected :: "action list \<Rightarrow> message list" where
  "collected [] = []"
| "collected (CollectData m # acts) = m # collected acts"
| "collected (a # acts) = collected acts"

fun ended_ranks :: "recv_result list \<Rightarrow> int list" where
  "ended_ranks [] = []"
| "ended_ranks (Recv m # ins) =
     (if in_keys ''end'' (fst m) then snd m # ended_ranks ins else ended_ranks ins)"
| "ended_ranks (KeyboardInterrupt # ins) = ended_ranks ins"

definition shutdown_action :: "action \<Rightarrow> bool" where
  "shutdown_action a = (a = RecvDiscard \<or> a = MpiFinalize \<or> a = MpiAbort 0 \<or> a = Exit 0)"


section \<open>The processing nodes (rank 1 and above) of \<^verbatim>\<open>MpiParallelization\<close>\<close>

text \<open>
  The Data Event Handler and the Processing Layer are given to the parallelization
  layer from outside; the loop uses four of their methods. \<^verbatim>\<open>extract_data\<close> reads
  the event with \<^verbatim>\<open>event["current_frame"]\<close> set, so it takes the frame index as a
  second argument; \<open>None\<close> stands for its raising \<^verbatim>\<open>OmDataExtractionError\<close>, the one
  exception the loop catches. \<^verbatim>\<open>end_processing_on_processing_node\<close> returns a
  dictionary or \<^verbatim>\<open>None\<close>.
\<close>

record ('ev, 'd) layers =
  get_num_frames_in_event :: "'ev \<Rightarrow> int"
  extract_data :: "'ev \<Rightarrow> int \<Rightarrow> 'd option"
  process_data :: "'d \<Rightarrow> message"
  end_processing_on_processing_node :: "pydict option"

text \<open>
  What a processing node does, in order. A non-blocking send is \<open>Isend i m\<close>, where
  \<open>i\<close> numbers the request it returns; \<open>Wait i\<close> is \<^verbatim>\<open>req.Wait()\<close> on that request.
\<close>

datatype ('ev, 'd) node_action =
    InitializeProcessingNode
  | OpenEvent 'ev
  | ExtractData 'ev int
  | SkippingEvent 'ev int
  | ProcessData 'd
  | Wait nat
  | Isend nat message
  | CloseEvent 'ev
  | EndProcessingOnProcessingNode
  | SendDead
  | Finalize
  | ExitNode int

text \<open>
  \<^verbatim>\<open>req\<close> is \<open>None\<close> for Python's \<^verbatim>\<open>None\<close> and for a request that has completed:
  an mpi4py request is false once \<^verbatim>\<open>Wait\<close> has returned (its handle is then the null
  request), so \<^verbatim>\<open>if req: req.Wait()\<close> waits only for a send that is still pending.
\<close>

record ('ev, 'd) processing_node =
  w_rank :: int
  w_mpi_size :: int
  num_frames_in_event_to_process :: "int option"
  req :: "nat option"
  requests_made :: nat
  history :: "('ev, 'd) node_action list"
  node_exit :: "int option"

definition log_action :: "('ev, 'd) node_action \<Rightarrow> ('ev, 'd) processing_node \<Rightarrow> ('ev, 'd) processing_node" where
  "log_action a w = w\<lparr>history := history w @ [a]\<rparr>"

text \<open>\<^verbatim>\<open>if req: req.Wait()\<close>\<close>

definition wait_if_req :: "('ev, 'd) processing_node \<Rightarrow> ('ev, 'd) processing_node" where
  "wait_if_req w = (case req w of None \<Rightarrow> w | Some i \<Rightarrow> (log_action (Wait i) w)\<lparr>req := None\<rparr>)"

text \<open>\<^verbatim>\<open>req = MPI.COMM_WORLD.isend(m, dest=0, tag=0)\<close>\<close>

definition isend :: "message \<Rightarrow> ('ev, 'd) processing_node \<Rightarrow> ('ev, 'd) processing_node" where
  "isend m w =
     (log_action (Isend (requests_made w) m) w)
       \<lparr>req := Some (requests_made w), requests_made := Suc (requests_made w)\<rparr>"

text \<open>The loop over \<^verbatim>\<open>range(-num_frames_to_process, 0)\<close>, given the offsets left.\<close>

fun frame_loop ::
  "('ev, 'd) layers \<Rightarrow> 'ev \<Rightarrow> int \<Rightarrow> int list \<Rightarrow> ('ev, 'd) processing_node \<Rightarrow> ('ev, 'd) processing_node" where
  "frame_loop L event n_frames_in_evt [] w = w"
| "frame_loop L event n_frames_in_evt (frame_offset # offsets) w =
     (let current_frame = n_frames_in_evt + frame_offset;
          w1 = log_action (ExtractData event current_frame) w
      in case extract_data L event current_frame of
           None \<Rightarrow>
             frame_loop L event n_frames_in_evt offsets (log_action (SkippingEvent event current_frame) w1)
         | Some data \<Rightarrow>
             frame_loop L event n_frames_in_evt offsets
               (isend (process_data L data) (wait_if_req (log_action (ProcessData data) w1))))"

text \<open>The body of \<^verbatim>\<open>for event in events\<close> after the check for a DIE message.\<close>

definition process_event ::
  "('ev, 'd) layers \<Rightarrow> 'ev \<Rightarrow> ('ev, 'd) processing_node \<Rightarrow> ('ev, 'd) processing_node" where
  "process_event L event w =
     (let w1 = log_action (OpenEvent event) w;
          n_frames_in_evt = get_num_frames_in_event L event;
          num_frames_to_process =
            (case num_frames_in_event_to_process w of
               Some limit \<Rightarrow> min n_frames_in_evt limit
             | None \<Rightarrow> n_frames_in_evt);
          w2 = frame_loop L event n_frames_in_evt (py_range (- num_frames_to_process) 0) w1
      in log_action (CloseEvent event) (wait_if_req w2))"

text \<open>\<^verbatim>\<open>shutdown\<close> on a processing node: a blocking send on the DEAD tag, then exit.\<close>

definition shutdown_processing :: "('ev, 'd) processing_node \<Rightarrow> ('ev, 'd) processing_node" where
  "shutdown_processing w = (log_action (ExitNode 0) (log_action Finalize (log_action SendDead w)))\<lparr>node_exit := Some 0\<rparr>"

text \<open>
  The event generator yields a finite list here; each event comes with the answer that
  \<^verbatim>\<open>Iprobe(source=0, tag=_DIETAG)\<close> gives when the loop reaches it.
\<close>

fun event_loop ::
  "('ev, 'd) layers \<Rightarrow> (bool \<times> 'ev) list \<Rightarrow> ('ev, 'd) processing_node \<Rightarrow> ('ev, 'd) processing_node" where
  "event_loop L [] w = w"
| "event_loop L ((die, event) # events) w =
     (if die then shutdown_processing w
      else event_loop L events (process_event L event w))"

definition init_processing :: "int \<Rightarrow> int \<Rightarrow> int option \<Rightarrow> ('ev, 'd) processing_node" where
  "init_processing rnk pool limit =
     \<lparr>w_rank = rnk, w_mpi_size = pool, num_frames_in_event_to_process = limit,
      req = None, requests_made = 0, history = [], node_exit = None\<rparr>"

text \<open>\<^verbatim>\<open>start\<close> on a processing node.\<close>

definition start_processing ::
  "('ev, 'd) layers \<Rightarrow> (bool \<times> 'ev) list \<Rightarrow> ('ev, 'd) processing_node \<Rightarrow> ('ev, 'd) processing_node" where
  "start_processing L events w =
     (let w1 = event_loop L events (log_action InitializeProcessingNode w)
      in if node_exit w1 \<noteq> None then w1
         else
           (let w2 = log_action EndProcessingOnProcessingNode w1;
                w3 = (case end_processing_on_processing_node L of
                        None \<Rightarrow> w2
                      | Some final_data \<Rightarrow> wait_if_req (isend (final_data, w_rank w2) w2));
                w4 = wait_if_req (isend (end_dict, w_rank w3) w3)
            in (log_action (ExitNode 0) (log_action Finalize w4))\<lparr>node_exit := Some 0\<rparr>))"

text \<open>
  Readings of a node's history: the frames whose extraction was tried, the payloads
  sent, the events opened and closed, and the requests that are pending (sent and not
  yet waited for) after a history.
\<close>

fun attempted :: "('ev, 'd) node_action list \<Rightarrow> ('ev \<times> int) list" where
  "attempted [] = []"
| "attempted (ExtractData e i # acts) = (e, i) # attempted acts"
| "attempted (a # acts) = attempted acts"

fun sent :: "('ev, 'd) node_action list \<Rightarrow> message list" where
  "sent [] = []"
| "sent (Isend i m # acts) = m # sent acts"
| "sent (a # acts) = sent acts"

fun opened :: "('ev, 'd) node_action list \<Rightarrow> 'ev list" where
  "opened [] = []"
| "opened (OpenEvent e # acts) = e # opened acts"
| "opened (a # acts) = opened acts"

fun closed :: "('ev, 'd) node_action list \<Rightarrow> 'ev list" where
  "closed [] = []"
| "closed (CloseEvent e # acts) = e # closed acts"
| "closed (a # acts) = closed acts"

fun after_action :: "nat set \<Rightarrow> ('ev, 'd) node_action \<Rightarrow> nat set" where
  "after_action P (Isend i m) = insert i P"
| "after_action P (Wait i) = P - {i}"
| "after_action P a = P"

definition in_flight :: "('ev, 'd) node_action list \<Rightarrow> nat set" where
  "in_flight acts = foldl after_action {} acts"

text \<open>The payloads of one event: one for each frame whose extraction succeeds.\<close>

definition payloads :: "('ev, 'd) layers \<Rightarrow> 'ev \<Rightarrow> int list \<Rightarrow> message list" where
  "payloads L event frames =
     List.map_filter (\<lambda>i. map_option (process_data L) (extract_data L event i)) frames"

text \<open>The frames of an event that the loop visits, as the configuration limits them.\<close>

definition frames_to_process :: "('ev, 'd) layers \<Rightarrow> int option \<Rightarrow> 'ev \<Rightarrow> int list" where
  "frames_to_process L limit event =
     (let n = get_num_frames_in_event L event;
          k = (case limit of Some l \<Rightarrow> min n l | None \<Rightarrow> n)
      in [n - k..n - 1])"

text \<open>The events reached before the first pending DIE message.\<close>

definition live_events :: "(bool \<times> 'ev) list \<Rightarrow> 'ev list" where
  "live_events events = map snd (takeWhile (\<lambda>p. \<not> fst p) events)"

text \<open>
  The sending discipline of a history: at no point are two requests pending, and a new
  send or the closing of an event happens only when nothing is pending.
\<close>

definition disciplined :: "('ev, 'd) node_action list \<Rightarrow> bool" where
  "disciplined h =
     ((\<forall>p. prefix p h \<longrightarrow> card (in_flight p) \<le> 1)
      \<and> (\<forall>p i m. prefix (p @ [Isend i m]) h \<longrightarrow> in_flight p = {})
      \<and> (\<forall>p e. prefix (p @ [CloseEvent e]) h \<longrightarrow> in_flight p = {}))"



text \<open>
  Layers for worked examples: every event has \<open>n\<close> frames, extraction fails on the
  listed (event, frame) pairs and otherwise returns the frame index, and the payload
  of a frame names it.
\<close>

definition example_layers :: "int \<Rightarrow> (nat \<times> int) list \<Rightarrow> pydict option \<Rightarrow> (nat, int) layers" where
  "example_layers n failing final =
     \<lparr>get_num_frames_in_event = (\<lambda>e. n),
      extract_data = (\<lambda>e i. if (e, i) \<in> set failing then None else Some i),
      process_data = (\<lambda>d. ([(''frame'', PyInt d)], 1)),
      end_processing_on_processing_node = final\<rparr>"

section \<open>The offline event generator for psana\<close>

text \<open>The exceptions that the functions modelled below raise.\<close>

datatype exception =
    ZeroDivisionError
  | AttributeError
  | OmMissingParameterGroupError
  | OmMissingParameterError
  | OmWrongParameterTypeError

text \<open>
  A slice \<^verbatim>\<open>xs[a:b]\<close>: a negative bound counts from the end, and both bounds are
  clamped to the list.
\<close>

definition slice_bound :: "int \<Rightarrow> nat \<Rightarrow> nat" where
  "slice_bound i len = (if i < 0 then nat (max 0 (i + int len)) else min (nat i) len)"

definition py_slice :: "'a list \<Rightarrow> int \<Rightarrow> int \<Rightarrow> 'a list" where
  "py_slice xs a b =
     (let lo = slice_bound a (length xs); hi = slice_bound b (length xs)
      in take (hi - lo) (drop lo xs))"

text \<open>
  \<^verbatim>\<open>int(numpy.ceil(len(times) / float(mpi_pool_size - 1)))\<close>. The quotient is taken as
  the exact one (the floating-point quotient of two integers below \<open>2^53\<close> rounds to
  the same ceiling); dividing by \<^verbatim>\<open>float(0)\<close> raises \<^verbatim>\<open>ZeroDivisionError\<close>.
\<close>

definition num_events_curr_node :: "nat \<Rightarrow> int \<Rightarrow> exception + int" where
  "num_events_curr_node len_times mpi_pool_size =
     (if mpi_pool_size - 1 = 0 then Inl ZeroDivisionError
      else Inr \<lceil>real len_times / real_of_int (mpi_pool_size - 1)\<rceil>)"

text \<open>
  \<^verbatim>\<open>_psana_offline_event_generator\<close>: the source is the list of its runs, a run the
  list \<^verbatim>\<open>run.times()\<close>; the result is everything the generator yields, an event
  being named by its time.
\<close>

fun psana_offline_event_generator :: "'e list list \<Rightarrow> int \<Rightarrow> int \<Rightarrow> exception + 'e list" where
  "psana_offline_event_generator [] node_rank mpi_pool_size = Inr []"
| "psana_offline_event_generator (run_times # runs) node_rank mpi_pool_size =
     (case num_events_curr_node (length run_times) mpi_pool_size of
        Inl exc \<Rightarrow> Inl exc
      | Inr num \<Rightarrow>
          (let events_curr_node = py_slice run_times ((node_rank - 1) * num) (node_rank * num)
           in case psana_offline_event_generator runs node_rank mpi_pool_size of
                Inl exc \<Rightarrow> Inl exc
              | Inr later \<Rightarrow> Inr (events_curr_node @ later)))"

section \<open>\<^verbatim>\<open>MonitorParams.get_param\<close>\<close>

text \<open>
  The classes that may be passed as \<^verbatim>\<open>parameter_type\<close>, and \<^verbatim>\<open>isinstance\<close> on
  the values of the configuration tree: \<^verbatim>\<open>bool\<close> is a subclass of \<^verbatim>\<open>int\<close>, and no
  other two of these classes are related.
\<close>

datatype pytype = TStr | TBytes | TFloat | TInt | TBool | TList | TDict | TNoneType

fun isinstance :: "pyval \<Rightarrow> pytype \<Rightarrow> bool" where
  "isinstance PyNone t = (t = TNoneType)"
| "isinstance (PyBool b) t = (t = TBool \<or> t = TInt)"
| "isinstance (PyInt i) t = (t = TInt)"
| "isinstance (PyFloat x) t = (t = TFloat)"
| "isinstance (PyStr s) t = (t = TStr)"
| "isinstance (PyBytes s) t = (t = TBytes)"
| "isinstance (PyList vs) t = (t = TList)"
| "isinstance (PyDict kvs) t = (t = TDict)"

text \<open>
  \<^verbatim>\<open>isinstance(v, basestring)\<close> with \<^verbatim>\<open>basestring\<close> of \<^verbatim>\<open>past.builtins\<close>: text and
  byte strings.
\<close>

fun is_basestring :: "pyval \<Rightarrow> bool" where
  "is_basestring (PyStr s) = True"
| "is_basestring (PyBytes s) = True"
| "is_basestring v = False"

text \<open>
  The object holds the tree read from the YAML file, \<^verbatim>\<open>Dict[str, Any]\<close>: a dictionary
  from group names to values. \<^verbatim>\<open>get_param\<close> returns its result, or the exception it
  raises, together with the object as the call leaves it. Calling \<^verbatim>\<open>.get\<close> on a
  group that is not a dictionary raises \<^verbatim>\<open>AttributeError\<close>.
\<close>

record MonitorParams =
  monitor_params :: pydict

definition get_param ::
  "MonitorParams \<Rightarrow> string \<Rightarrow> string \<Rightarrow> pytype option \<Rightarrow> bool \<Rightarrow> (exception + pyval) \<times> MonitorParams" where
  "get_param self group_name parameter parameter_type required =
     (if \<not> in_keys group_name (monitor_params self) then (Inl OmMissingParameterGroupError, self)
      else
        (case dict_get (monitor_params self) group_name of
           PyDict params_of_group \<Rightarrow>
             (let ret = dict_get params_of_group parameter
              in if ret = PyNone \<and> required then (Inl OmMissingParameterError, self)
                 else if ret \<noteq> PyNone \<and> parameter_type \<noteq> None then
                   (if parameter_type = Some TStr then
                      (if \<not> is_basestring ret then (Inl OmWrongParameterTypeError, self)
                       else (Inr ret, self))
                    else if parameter_type = Some TFloat then
                      (if \<not> isinstance ret TFloat \<and> \<not> isinstance ret TInt
                       then (Inl OmWrongParameterTypeError, self)
                       else (Inr ret, self))
                    else if \<not> isinstance ret (the parameter_type)
                      then (Inl OmWrongParameterTypeError, self)
                    else (Inr ret, self))
                 else (Inr ret, self))
         | other \<Rightarrow> (Inl AttributeError, self)))"

text \<open>
  The values that \<^verbatim>\<open>get_param\<close> lets through for a requested type: text and byte
  strings for \<^verbatim>\<open>str\<close>, floats and integers (booleans among them) for \<^verbatim>\<open>float\<close>,
  the instances of the class for any other.
\<close>

definition type_accepted :: "pytype \<Rightarrow> pyval \<Rightarrow> bool" where
  "type_accepted t v =
     (if t = TStr then is_basestring v
      else if t = TFloat then isinstance v TFloat \<or> isinstance v TInt
      else isinstance v t)"

text \<open>A tree for worked examples.\<close>

definition example_params :: MonitorParams where
  "example_params =
     \<lparr>monitor_params =
        [(''data_retrieval_layer'',
            PyDict [(''num_frames_in_event_to_process'', PyInt 2),
                    (''fallback_beam_energy_in_eV'', PyInt 9000),
                    (''psana_calibration_directory'', PyNone)]),
         (''crystallography'',
            PyDict [(''geometry_file'', PyStr ''pilatus.geom''),
                    (''min_snr'', PyFloat 6)])]\<rparr>"

section \<open>Properties of the collecting node\<close>

lemma emit_simps [simp]:
  "trace (emit a s) = trace s @ [a]"
  "mpi_size (emit a s) = mpi_size s"
  "num_nomore (emit a s) = num_nomore s"
  "num_collected_events (emit a s) = num_collected_events s"
  "exit_status (emit a s) = exit_status s"
  by (simp_all add: emit_def)

lemma exit_with_simps [simp]:
  "trace (exit_with c s) = trace s @ [Exit c]"
  "mpi_size (exit_with c s) = mpi_size s"
  "num_nomore (exit_with c s) = num_nomore s"
  "num_collected_events (exit_with c s) = num_collected_events s"
  "exit_status (exit_with c s) = Some c"
  by (simp_all add: exit_with_def)

lemma fold_emit:
  "trace (fold (\<lambda>n. emit (f n)) xs s) = trace s @ map f xs
   \<and> mpi_size (fold (\<lambda>n. emit (f n)) xs s) = mpi_size s
   \<and> num_nomore (fold (\<lambda>n. emit (f n)) xs s) = num_nomore s
   \<and> num_collected_events (fold (\<lambda>n. emit (f n)) xs s) = num_collected_events s
   \<and> exit_status (fold (\<lambda>n. emit (f n)) xs s) = exit_status s"
  by (induction xs arbitrary: s) simp_all

lemma shutdown_loop_fields [simp]:
  "mpi_size (shutdown_loop c ps s) = mpi_size s"
  "num_nomore (shutdown_loop c ps s) = num_nomore s"
  "num_collected_events (shutdown_loop c ps s) = num_collected_events s"
  by (induction c ps s rule: shutdown_loop.induct) (simp_all add: Let_def)

lemma shutdown_loop_trace:
  "\<exists>acts. trace (shutdown_loop c ps s) = trace s @ acts \<and> list_all shutdown_action acts"
proof (induction c ps s rule: shutdown_loop.induct)
  case (1 c s)
  then show ?case by simp
next
  case (2 c ps s)
  then show ?case by (simp add: shutdown_action_def)
next
  case (3 c data dead ps s)
  define s1 where "s1 = (if data then emit RecvDiscard s else s)"
  define c' where "c' = (if dead then c + 1 else c)"
  have pre: "\<exists>acts. trace s1 = trace s @ acts \<and> list_all shutdown_action acts"
    by (simp add: s1_def shutdown_action_def)
  show ?case
  proof (cases "c' = mpi_size s1 - 1")
    case True
    then have "trace (shutdown_loop c (Iprobe data dead # ps) s) = trace s1 @ [MpiFinalize, Exit 0]"
      by (simp add: s1_def c'_def Let_def)
    moreover have "list_all shutdown_action [MpiFinalize, Exit 0]" by (simp add: shutdown_action_def)
    ultimately show ?thesis using pre by auto
  next
    case False
    then have eq: "shutdown_loop c (Iprobe data dead # ps) s = shutdown_loop c' ps s1"
      by (simp add: s1_def c'_def Let_def)
    from "3.IH" [OF s1_def c'_def False]
    obtain acts where "trace (shutdown_loop c' ps s1) = trace s1 @ acts" "list_all shutdown_action acts"
      by blast
    with pre eq show ?thesis by auto
  qed
qed



lemma shutdown_collecting_fields [simp]:
  "mpi_size (shutdown_collecting ps s) = mpi_size s"
  "num_nomore (shutdown_collecting ps s) = num_nomore s"
  "num_collected_events (shutdown_collecting ps s) = num_collected_events s"
  by (simp_all add: shutdown_collecting_def fold_emit)

lemma shutdown_collecting_trace:
  "\<exists>acts. trace (shutdown_collecting ps s) = trace s @ map IsendDie (py_range 1 (mpi_size s)) @ acts
        \<and> list_all shutdown_action acts"
proof -
  let ?s1 = "fold (\<lambda>node_num. emit (IsendDie node_num)) (py_range 1 (mpi_size s)) s"
  obtain acts where "trace (shutdown_loop 0 ps ?s1) = trace ?s1 @ acts" "list_all shutdown_action acts"
    using shutdown_loop_trace by blast
  then show ?thesis
    by (simp add: shutdown_collecting_def fold_emit)
qed


lemma count_list_shutdown_action:
  "list_all shutdown_action acts \<Longrightarrow> count_list acts EndProcessingOnCollectingNode = 0"
  by (induction acts) (auto simp: shutdown_action_def)

lemma count_list_IsendDie:
  "count_list (map IsendDie ns) EndProcessingOnCollectingNode = 0"
  by (induction ns) auto

lemma shutdown_collecting_count:
  "count_list (trace (shutdown_collecting ps s)) EndProcessingOnCollectingNode
   = count_list (trace s) EndProcessingOnCollectingNode"
  using shutdown_collecting_trace [of ps s]
  by (auto simp: count_list_shutdown_action count_list_IsendDie)

lemma collecting_loop_inv:
  assumes "exit_status s = None" "num_nomore s < mpi_size s - 1"
    and "collecting_loop ps ins s = (s', unread)"
  shows "(\<exists>received. ins = received @ unread
            \<and> num_nomore s' = num_nomore s + int (length (filter is_end received)))
       \<and> mpi_size s' = mpi_size s
       \<and> num_nomore s' \<le> mpi_size s - 1
       \<and> count_list (trace s') EndProcessingOnCollectingNode
           = count_list (trace s) EndProcessingOnCollectingNode
             + (if num_nomore s' = mpi_size s - 1 then 1 else 0)
       \<and> (num_nomore s' = mpi_size s - 1 \<longrightarrow>
            exit_status s' = Some 0
            \<and> (\<exists>pre. trace s' = pre @ [EndProcessingOnCollectingNode, MpiFinalize, Exit 0]))"
  using assms
proof (induction ins arbitrary: s)
  case Nil
  then show ?case by auto
next
  case (Cons inp ins)
  show ?case
  proof (cases inp)
    case KeyboardInterrupt
    with Cons.prems have s': "s' = shutdown_collecting ps s" and u: "unread = ins"
      by (auto simp: collecting_step_def)
    have "inp # ins = [inp] @ unread \<and> filter is_end [inp] = []"
      using KeyboardInterrupt u by simp
    then have "\<exists>received. inp # ins = received @ unread
            \<and> num_nomore s' = num_nomore s + int (length (filter is_end received))"
      using s' by (metis shutdown_collecting_fields(2) add.right_neutral list.size(3) of_nat_0)
    then show ?thesis
      using s' Cons.prems(2) by (simp add: shutdown_collecting_count)
  next
    case (Recv m)
    show ?thesis
    proof (cases "in_keys ''end'' (fst m)")
      case False
      define s1 where "s1 = (emit (CollectData m) s)\<lparr>num_collected_events := num_collected_events s + 1\<rparr>"
      have step: "collecting_step ps inp s = s1"
        using Recv False by (simp add: collecting_step_def s1_def)
      have s1: "exit_status s1 = None" "num_nomore s1 = num_nomore s" "mpi_size s1 = mpi_size s"
        "count_list (trace s1) EndProcessingOnCollectingNode = count_list (trace s) EndProcessingOnCollectingNode"
        using Cons.prems(1) by (simp_all add: s1_def)
      have loop: "collecting_loop ps ins s1 = (s', unread)"
        using Cons.prems(3) step s1(1) Recv by simp
      from Cons.IH [OF s1(1) _ loop] Cons.prems(2) s1
      obtain received where r: "ins = received @ unread"
        "num_nomore s' = num_nomore s + int (length (filter is_end received))"
        and rest: "mpi_size s' = mpi_size s" "num_nomore s' \<le> mpi_size s - 1"
        "count_list (trace s') EndProcessingOnCollectingNode
           = count_list (trace s) EndProcessingOnCollectingNode
             + (if num_nomore s' = mpi_size s - 1 then 1 else 0)"
        "num_nomore s' = mpi_size s - 1 \<longrightarrow>
            exit_status s' = Some 0
            \<and> (\<exists>pre. trace s' = pre @ [EndProcessingOnCollectingNode, MpiFinalize, Exit 0])"
        by auto
      have "inp # ins = (inp # received) @ unread
            \<and> num_nomore s' = num_nomore s + int (length (filter is_end (inp # received)))"
        using r Recv False by simp
      then show ?thesis using rest by blast
    next
      case True
      define s1 where "s1 = s\<lparr>num_nomore := num_nomore s + 1\<rparr>"
      show ?thesis
      proof (cases "num_nomore s1 = mpi_size s1 - 1")
        case last: True
        have step: "collecting_step ps inp s
                    = exit_with 0 (emit MpiFinalize (emit EndProcessingOnCollectingNode s1))"
          using Recv True last by (simp add: collecting_step_def s1_def Let_def)
        with Cons.prems(3) have s': "s' = exit_with 0 (emit MpiFinalize (emit EndProcessingOnCollectingNode s1))"
          and u: "unread = ins" by auto
        have "inp # ins = [inp] @ unread
            \<and> num_nomore s' = num_nomore s + int (length (filter is_end [inp]))"
          using u s' Recv True by (simp add: s1_def)
        then have ex: "\<exists>received. inp # ins = received @ unread
            \<and> num_nomore s' = num_nomore s + int (length (filter is_end received))"
          by blast
        have "trace s' = trace s @ [EndProcessingOnCollectingNode, MpiFinalize, Exit 0]"
          using s' by (simp add: s1_def)
        then show ?thesis
          using ex s' last by (simp add: s1_def)
      next
        case more: False
        have step: "collecting_step ps inp s = s1"
          using Recv True more by (simp add: collecting_step_def s1_def Let_def)
        have s1: "exit_status s1 = None" "num_nomore s1 = num_nomore s + 1" "mpi_size s1 = mpi_size s"
          "count_list (trace s1) EndProcessingOnCollectingNode = count_list (trace s) EndProcessingOnCollectingNode"
          using Cons.prems(1) by (simp_all add: s1_def)
        have lt: "num_nomore s1 < mpi_size s1 - 1"
          using more Cons.prems(2) s1 by linarith
        have loop: "collecting_loop ps ins s1 = (s', unread)"
          using Cons.prems(3) step s1(1) Recv by simp
        from Cons.IH [OF s1(1) lt loop] s1
        obtain received where r: "ins = received @ unread"
          "num_nomore s' = num_nomore s + 1 + int (length (filter is_end received))"
          and rest: "mpi_size s' = mpi_size s" "num_nomore s' \<le> mpi_size s - 1"
          "count_list (trace s') EndProcessingOnCollectingNode
             = count_list (trace s) EndProcessingOnCollectingNode
               + (if num_nomore s' = mpi_size s - 1 then 1 else 0)"
          "num_nomore s' = mpi_size s - 1 \<longrightarrow>
              exit_status s' = Some 0
              \<and> (\<exists>pre. trace s' = pre @ [EndProcessingOnCollectingNode, MpiFinalize, Exit 0])"
          by auto
        have "inp # ins = (inp # received) @ unread
              \<and> num_nomore s' = num_nomore s + int (length (filter is_end (inp # received)))"
          using r Recv True by simp
        then show ?thesis using rest by blast
      qed
    qed
  qed
qed


lemma collecting_loop_count:
  "collecting_loop ps ins s = (s', unread) \<Longrightarrow>
   \<exists>received. ins = received @ unread
      \<and> num_nomore s' = num_nomore s + int (length (filter is_end received))"
proof (induction ins arbitrary: s)
  case Nil
  then show ?case by simp
next
  case (Cons inp ins)
  define s1 where "s1 = collecting_step ps inp s"
  have n1: "num_nomore s1 = num_nomore s + (if is_end inp then 1 else 0)"
    by (cases inp) (auto simp: s1_def collecting_step_def Let_def)
  show ?case
  proof (cases "exit_status s1 \<noteq> None \<or> inp = KeyboardInterrupt")
    case True
    with Cons.prems have "s' = s1" "unread = ins"
      by (auto simp: s1_def Let_def)
    then have "inp # ins = [inp] @ unread
      \<and> num_nomore s' = num_nomore s + int (length (filter is_end [inp]))"
      using n1 by simp
    then show ?thesis by blast
  next
    case False
    with Cons.prems have "collecting_loop ps ins s1 = (s', unread)"
      by (auto simp: s1_def Let_def)
    from Cons.IH [OF this] obtain received where
      "ins = received @ unread" "num_nomore s' = num_nomore s1 + int (length (filter is_end received))"
      by blast
    then have "inp # ins = (inp # received) @ unread
      \<and> num_nomore s' = num_nomore s + int (length (filter is_end (inp # received)))"
      using n1 by simp
    then show ?thesis by blast
  qed
qed

lemmas collect_eval = start_collecting_def init_collecting_def collecting_step_def emit_def
        exit_with_def in_keys_def end_dict_def shutdown_collecting_def py_range_def

lemma collected_append [simp]: "collected (xs @ ys) = collected xs @ collected ys"
  by (induction xs rule: collected.induct) simp_all



section \<open>Claims about the collecting node\<close>

text \<open>
  Claim C1. In a pool with at least one processing node, rank 0 calls
  \<^verbatim>\<open>end_processing_on_collecting_node\<close> exactly once when the number of END
  messages it has received equals \<^verbatim>\<open>mpi_size - 1\<close>, and not at all otherwise;
  the call is followed directly by \<^verbatim>\<open>MPI.Finalize()\<close> and \<^verbatim>\<open>exit(0)\<close>.
  The counter \<^verbatim>\<open>_num_nomore\<close> is the number of END messages among those read.
\<close>

theorem end_processing_on_collecting_node_once:
  assumes "2 \<le> pool_size" and "start_collecting pool_size ins ps = (s, unread)"
  shows "(\<exists>received. ins = received @ unread
            \<and> num_nomore s = int (length (filter is_end received)))
       \<and> count_list (trace s) EndProcessingOnCollectingNode
            = (if num_nomore s = pool_size - 1 then 1 else 0)
       \<and> (num_nomore s = pool_size - 1 \<longrightarrow>
            exit_status s = Some 0
            \<and> (\<exists>pre. trace s = pre @ [EndProcessingOnCollectingNode, MpiFinalize, Exit 0]))"
proof -
  let ?s0 = "emit InitializeCollectingNode (init_collecting pool_size)"
  have a: "exit_status ?s0 = None" "num_nomore ?s0 < mpi_size ?s0 - 1"
    using assms(1) by (simp_all add: init_collecting_def)
  have b: "collecting_loop ps ins ?s0 = (s, unread)"
    using assms(2) by (simp add: start_collecting_def)
  have c: "num_nomore ?s0 = 0" "mpi_size ?s0 = pool_size"
    "count_list (trace ?s0) EndProcessingOnCollectingNode = 0"
    by (simp_all add: init_collecting_def)
  from collecting_loop_inv [OF a b] show ?thesis
    unfolding c by simp
qed

theorem end_processing_on_collecting_node_once_witness:
  "(2::int) \<le> 3
   \<and> start_collecting 3
        [Recv ([(''peaks'', PyInt 7)], 1), Recv (end_dict, 2), Recv (end_dict, 1),
         Recv ([(''peaks'', PyInt 2)], 1)] []
       = (\<lparr>mpi_size = 3, num_nomore = 2, num_collected_events = 1,
            trace = [InitializeCollectingNode, CollectData ([(''peaks'', PyInt 7)], 1),
                     EndProcessingOnCollectingNode, MpiFinalize, Exit 0],
            exit_status = Some 0\<rparr>,
          [Recv ([(''peaks'', PyInt 2)], 1)])
   \<and> count_list [InitializeCollectingNode, CollectData ([(''peaks'', PyInt 7)], 1),
                  EndProcessingOnCollectingNode, MpiFinalize, Exit 0]
         EndProcessingOnCollectingNode = 1"
proof -
  have h: "start_collecting 3
        [Recv ([(''peaks'', PyInt 7)], 1), Recv (end_dict, 2), Recv (end_dict, 1),
         Recv ([(''peaks'', PyInt 2)], 1)] []
       = (\<lparr>mpi_size = 3, num_nomore = 2, num_collected_events = 1,
            trace = [InitializeCollectingNode, CollectData ([(''peaks'', PyInt 7)], 1),
                     EndProcessingOnCollectingNode, MpiFinalize, Exit 0],
            exit_status = Some 0\<rparr>,
          [Recv ([(''peaks'', PyInt 2)], 1)])"
    by (simp add: start_collecting_def init_collecting_def collecting_step_def emit_def
        exit_with_def in_keys_def end_dict_def)
  have p: "(2::int) \<le> 3" by simp
  from end_processing_on_collecting_node_once [OF p h] h show ?thesis by simp
qed

text \<open>
  Claim C2 says that rank 0 counts the distinct ranks that have ended, so that a second
  END from the same rank changes nothing. The code keeps no record of ranks: two END
  messages from rank 1 in a pool of three bring \<^verbatim>\<open>_num_nomore\<close> to 2 although one
  rank has ended, and trigger the final flush.
\<close>

theorem duplicate_end_counted_again:
  "num_nomore (fst (start_collecting 3 [Recv (end_dict, 1), Recv (end_dict, 1)] [])) = 2
   \<and> length (remdups (ended_ranks [Recv (end_dict, 1), Recv (end_dict, 1)])) = 1
   \<and> num_nomore (fst (start_collecting 3 [Recv (end_dict, 1)] [])) = 1
   \<and> trace (fst (start_collecting 3 [Recv (end_dict, 1), Recv (end_dict, 1)] []))
       = [InitializeCollectingNode, EndProcessingOnCollectingNode, MpiFinalize, Exit 0]"
  by (simp add: collect_eval)

text \<open>
  Claim C2 as amended: \<^verbatim>\<open>_num_nomore\<close> is the number of END messages among the
  messages read, whatever their senders; each END message, from any rank and in any
  state, adds one.
\<close>

theorem end_messages_counted_by_occurrence:
  "(\<exists>received. ins = received @ snd (start_collecting pool_size ins ps)
      \<and> num_nomore (fst (start_collecting pool_size ins ps))
          = int (length (filter is_end received)))
   \<and> num_nomore (collecting_step ps (Recv (end_dict, r)) s) = num_nomore s + 1"
proof -
  obtain s' unread where r: "start_collecting pool_size ins ps = (s', unread)"
    by (cases "start_collecting pool_size ins ps")
  then have "collecting_loop ps ins (emit InitializeCollectingNode (init_collecting pool_size)) = (s', unread)"
    by (simp add: start_collecting_def)
  from collecting_loop_count [OF this] have
    "\<exists>received. ins = received @ unread \<and> num_nomore s' = int (length (filter is_end received))"
    by (simp add: init_collecting_def)
  moreover have "num_nomore (collecting_step ps (Recv (end_dict, r)) s) = num_nomore s + 1"
    by (simp add: collecting_step_def Let_def in_keys_def end_dict_def)
  ultimately show ?thesis using r by simp
qed






section \<open>Properties of the processing nodes\<close>

lemma attempted_append [simp]: "attempted (xs @ ys) = attempted xs @ attempted ys"
  by (induction xs rule: attempted.induct) simp_all

lemma sent_append [simp]: "sent (xs @ ys) = sent xs @ sent ys"
  by (induction xs rule: sent.induct) simp_all

lemma opened_append [simp]: "opened (xs @ ys) = opened xs @ opened ys"
  by (induction xs rule: opened.induct) simp_all

lemma closed_append [simp]: "closed (xs @ ys) = closed xs @ closed ys"
  by (induction xs rule: closed.induct) simp_all

lemma log_action_simps [simp]:
  "history (log_action a w) = history w @ [a]"
  "req (log_action a w) = req w"
  "requests_made (log_action a w) = requests_made w"
  "w_rank (log_action a w) = w_rank w"
  "w_mpi_size (log_action a w) = w_mpi_size w"
  "num_frames_in_event_to_process (log_action a w) = num_frames_in_event_to_process w"
  "node_exit (log_action a w) = node_exit w"
  by (simp_all add: log_action_def)

lemma wait_if_req_simps [simp]:
  "req (wait_if_req w) = None"
  "requests_made (wait_if_req w) = requests_made w"
  "w_rank (wait_if_req w) = w_rank w"
  "w_mpi_size (wait_if_req w) = w_mpi_size w"
  "num_frames_in_event_to_process (wait_if_req w) = num_frames_in_event_to_process w"
  "node_exit (wait_if_req w) = node_exit w"
  "attempted (history (wait_if_req w)) = attempted (history w)"
  "sent (history (wait_if_req w)) = sent (history w)"
  "opened (history (wait_if_req w)) = opened (history w)"
  "closed (history (wait_if_req w)) = closed (history w)"
  by (simp_all add: wait_if_req_def split: option.splits)

lemma isend_simps [simp]:
  "req (isend m w) = Some (requests_made w)"
  "requests_made (isend m w) = Suc (requests_made w)"
  "w_rank (isend m w) = w_rank w"
  "w_mpi_size (isend m w) = w_mpi_size w"
  "num_frames_in_event_to_process (isend m w) = num_frames_in_event_to_process w"
  "node_exit (isend m w) = node_exit w"
  "history (isend m w) = history w @ [Isend (requests_made w) m]"
  by (simp_all add: isend_def)

lemma frame_loop_fields [simp]:
  "w_rank (frame_loop L e n offs w) = w_rank w"
  "w_mpi_size (frame_loop L e n offs w) = w_mpi_size w"
  "num_frames_in_event_to_process (frame_loop L e n offs w) = num_frames_in_event_to_process w"
  "node_exit (frame_loop L e n offs w) = node_exit w"
  "opened (history (frame_loop L e n offs w)) = opened (history w)"
  "closed (history (frame_loop L e n offs w)) = closed (history w)"
  by (induction offs arbitrary: w; simp add: Let_def split: option.splits)+

lemma frame_loop_attempted:
  "attempted (history (frame_loop L e n offs w))
   = attempted (history w) @ map (\<lambda>off. (e, n + off)) offs"
  by (induction offs arbitrary: w) (simp_all add: Let_def split: option.splits)

lemma payloads_Cons:
  "payloads L e (i # frames)
   = (case extract_data L e i of None \<Rightarrow> [] | Some d \<Rightarrow> [process_data L d]) @ payloads L e frames"
  by (simp add: payloads_def List.map_filter_simps split: option.splits)

lemma payloads_Nil [simp]: "payloads L e [] = []"
  by (simp add: payloads_def List.map_filter_simps)

lemma frame_loop_sent:
  "sent (history (frame_loop L e n offs w))
   = sent (history w) @ payloads L e (map (\<lambda>off. n + off) offs)"
  by (induction offs arbitrary: w) (simp_all add: Let_def payloads_Cons split: option.splits)

lemma map_add_upto: "map (\<lambda>off. n + off) [a..b] = [n + a..n + b]"
proof (induction a b rule: upto.induct)
  case (1 i j)
  then show ?case
    by (cases "i \<le> j") (simp_all add: upto_rec1 add.assoc)
qed

lemma offsets_frames:
  "map (\<lambda>off. get_num_frames_in_event L e + off)
     (py_range (- (case limit of Some l \<Rightarrow> min (get_num_frames_in_event L e) l
                                | None \<Rightarrow> get_num_frames_in_event L e)) 0)
   = frames_to_process L limit e"
  by (simp add: py_range_def frames_to_process_def map_add_upto Let_def)

lemma process_event_fields [simp]:
  "w_rank (process_event L e w) = w_rank w"
  "w_mpi_size (process_event L e w) = w_mpi_size w"
  "num_frames_in_event_to_process (process_event L e w) = num_frames_in_event_to_process w"
  "node_exit (process_event L e w) = node_exit w"
  "req (process_event L e w) = None"
  by (simp_all add: process_event_def Let_def)

lemma process_event_readings:
  "opened (history (process_event L e w)) = opened (history w) @ [e]"
  "closed (history (process_event L e w)) = closed (history w) @ [e]"
  "attempted (history (process_event L e w))
   = attempted (history w) @ map (Pair e) (frames_to_process L (num_frames_in_event_to_process w) e)"
  "sent (history (process_event L e w))
   = sent (history w) @ payloads L e (frames_to_process L (num_frames_in_event_to_process w) e)"
proof -
  show "opened (history (process_event L e w)) = opened (history w) @ [e]"
    by (simp add: process_event_def Let_def)
  show "closed (history (process_event L e w)) = closed (history w) @ [e]"
    by (simp add: process_event_def Let_def)
  have "map (\<lambda>off. (e, get_num_frames_in_event L e + off)) offs
        = map (Pair e) (map (\<lambda>off. get_num_frames_in_event L e + off) offs)" for offs
    by simp
  then show "attempted (history (process_event L e w))
   = attempted (history w) @ map (Pair e) (frames_to_process L (num_frames_in_event_to_process w) e)"
    unfolding process_event_def Let_def
    by (simp add: frame_loop_attempted offsets_frames del: map_map)
  show "sent (history (process_event L e w))
   = sent (history w) @ payloads L e (frames_to_process L (num_frames_in_event_to_process w) e)"
    unfolding process_event_def Let_def
    by (simp add: frame_loop_sent offsets_frames)
qed


lemma shutdown_processing_simps [simp]:
  "node_exit (shutdown_processing w) = Some 0"
  "history (shutdown_processing w) = history w @ [SendDead, Finalize, ExitNode 0]"
  "req (shutdown_processing w) = req w"
  "num_frames_in_event_to_process (shutdown_processing w) = num_frames_in_event_to_process w"
  "w_rank (shutdown_processing w) = w_rank w"
  by (simp_all add: shutdown_processing_def)

lemma live_events_simps [simp]:
  "live_events [] = []"
  "live_events ((die, e) # events) = (if die then [] else e # live_events events)"
  by (simp_all add: live_events_def)

lemma event_loop_fields [simp]:
  "num_frames_in_event_to_process (event_loop L events w) = num_frames_in_event_to_process w"
  "w_rank (event_loop L events w) = w_rank w"
  by (induction L events w rule: event_loop.induct; simp)+


lemma event_loop_readings:
  "opened (history (event_loop L events w)) = opened (history w) @ live_events events"
  "closed (history (event_loop L events w)) = closed (history w) @ live_events events"
  "attempted (history (event_loop L events w))
   = attempted (history w)
     @ concat (map (\<lambda>e. map (Pair e) (frames_to_process L (num_frames_in_event_to_process w) e))
                (live_events events))"
  "sent (history (event_loop L events w))
   = sent (history w)
     @ concat (map (\<lambda>e. payloads L e (frames_to_process L (num_frames_in_event_to_process w) e))
                (live_events events))"
  by (induction L events w rule: event_loop.induct; simp add: process_event_readings)+


lemma in_flight_snoc [simp]: "in_flight (h @ [a]) = after_action (in_flight h) a"
  by (simp add: in_flight_def)

lemma in_flight_Nil [simp]: "in_flight [] = {}"
  by (simp add: in_flight_def)

lemma disciplined_Nil [simp]: "disciplined []"
  by (simp add: disciplined_def)


lemma card_set_option [simp]: "card (set_option x) \<le> Suc 0"
  by (cases x) simp_all













lemma payloads_skip:
  "extract_data L e k = None \<Longrightarrow> payloads L e (filter (\<lambda>i. i \<noteq> k) frames) = payloads L e frames"
  by (induction frames) (simp_all add: payloads_Cons)


lemmas node_eval = example_layers_def init_processing_def process_event_def start_processing_def
  log_action_def wait_if_req_def isend_def shutdown_processing_def py_range_def end_dict_def Let_def
  upto_rec1

section \<open>Claims about the processing nodes\<close>

text \<open>
  Claim C4. For an event with \<open>n\<close> frames and the configured limit
  \<^verbatim>\<open>num_frames_in_event_to_process\<close>, let \<open>k\<close> be the smaller of \<open>n\<close> and the limit
  (\<open>n\<close> itself when the limit is \<^verbatim>\<open>None\<close>). The node tries extraction on the frames
  \<open>n - k, ..., n - 1\<close> in this order and on no other frame of the event: these are
  the last \<open>k\<close> frames, and there are \<open>k\<close> of them (none when \<open>k\<close> is not positive).
  The witness is the event of 5 frames with limit 2: frames 3 and 4, in this order.
\<close>

theorem last_frames_processed_in_order:
  "(let n = get_num_frames_in_event L event;
        k = (case num_frames_in_event_to_process w of Some limit \<Rightarrow> min n limit | None \<Rightarrow> n)
    in attempted (history (process_event L event w))
         = attempted (history w) @ map (Pair event) [n - k..n - 1]
       \<and> length [n - k..n - 1] = nat k)"
  by (simp add: process_event_readings frames_to_process_def Let_def)

theorem last_frames_processed_in_order_witness:
  "history (process_event (example_layers 5 [] None) 0 (init_processing 1 2 (Some 2)))
     = [OpenEvent 0, ExtractData 0 3, ProcessData 3, Isend 0 ([(''frame'', PyInt 3)], 1),
        ExtractData 0 4, ProcessData 4, Wait 0, Isend 1 ([(''frame'', PyInt 4)], 1), Wait 1,
        CloseEvent 0]
   \<and> attempted (history (process_event (example_layers 5 [] None) 0 (init_processing 1 2 (Some 2))))
     = [(0, 3), (0, 4)]"
proof -
  have h: "history (process_event (example_layers 5 [] None) 0 (init_processing 1 2 (Some 2)))
     = [OpenEvent 0, ExtractData 0 3, ProcessData 3, Isend 0 ([(''frame'', PyInt 3)], 1),
        ExtractData 0 4, ProcessData 4, Wait 0, Isend 1 ([(''frame'', PyInt 4)], 1), Wait 1,
        CloseEvent 0]"
    by (simp add: node_eval)
  have n: "get_num_frames_in_event (example_layers 5 [] None) (0::nat) = 5"
    "num_frames_in_event_to_process (init_processing 1 2 (Some 2) :: (nat, int) processing_node) = Some 2"
    "history (init_processing 1 2 (Some 2) :: (nat, int) processing_node) = []"
    by (simp_all add: example_layers_def init_processing_def)
  from last_frames_processed_in_order [of "example_layers 5 [] None" 0 "init_processing 1 2 (Some 2)"]
  have "attempted (history (process_event (example_layers 5 [] None) 0 (init_processing 1 2 (Some 2))))
     = map (Pair 0) [3..4]"
    unfolding n Let_def by simp
  with h show ?thesis by simp
qed

text \<open>
  Claim C5. When extraction of frame \<open>k\<close> of an event raises
  \<^verbatim>\<open>OmDataExtractionError\<close>, extraction is still tried on every frame the event was
  to have processed, the payloads sent are those of the frames other than \<open>k\<close> whose
  extraction succeeds (in frame order), the event is closed, and the loop opens and
  closes every event that comes before a DIE message.
\<close>

theorem extraction_error_skips_only_that_frame:
  assumes "extract_data L event k = None"
  shows "(let frames = frames_to_process L (num_frames_in_event_to_process w) event
          in attempted (history (process_event L event w))
               = attempted (history w) @ map (Pair event) frames
             \<and> sent (history (process_event L event w))
               = sent (history w) @ payloads L event (filter (\<lambda>i. i \<noteq> k) frames)
             \<and> closed (history (process_event L event w)) = closed (history w) @ [event])
         \<and> opened (history (event_loop L events w)) = opened (history w) @ live_events events
         \<and> closed (history (event_loop L events w)) = closed (history w) @ live_events events"
  using assms
  by (simp add: Let_def process_event_readings event_loop_readings payloads_skip)

theorem extraction_error_skips_only_that_frame_witness:
  "extract_data (example_layers 3 [(0, 1)] None) 0 1 = None
   \<and> history (event_loop (example_layers 3 [(0, 1)] None) [(False, 0), (False, 1)] (init_processing 1 2 None))
     = [OpenEvent 0, ExtractData 0 0, ProcessData 0, Isend 0 ([(''frame'', PyInt 0)], 1),
        ExtractData 0 1, SkippingEvent 0 1,
        ExtractData 0 2, ProcessData 2, Wait 0, Isend 1 ([(''frame'', PyInt 2)], 1), Wait 1,
        CloseEvent 0,
        OpenEvent 1, ExtractData 1 0, ProcessData 0, Isend 2 ([(''frame'', PyInt 0)], 1),
        ExtractData 1 1, ProcessData 1, Wait 2, Isend 3 ([(''frame'', PyInt 1)], 1),
        ExtractData 1 2, ProcessData 2, Wait 3, Isend 4 ([(''frame'', PyInt 2)], 1), Wait 4,
        CloseEvent 1]
   \<and> opened (history (event_loop (example_layers 3 [(0, 1)] None) [(False, 0), (False, 1)]
        (init_processing 1 2 None))) = [0, 1]
   \<and> sent (history (process_event (example_layers 3 [(0, 1)] None) 0 (init_processing 1 2 None)))
     = [([(''frame'', PyInt 0)], 1), ([(''frame'', PyInt 2)], 1)]"
proof -
  have h: "extract_data (example_layers 3 [(0, 1)] None) 0 1 = None"
    by (simp add: example_layers_def)
  have t: "history (event_loop (example_layers 3 [(0, 1)] None) [(False, 0), (False, 1)] (init_processing 1 2 None))
     = [OpenEvent 0, ExtractData 0 0, ProcessData 0, Isend 0 ([(''frame'', PyInt 0)], 1),
        ExtractData 0 1, SkippingEvent 0 1,
        ExtractData 0 2, ProcessData 2, Wait 0, Isend 1 ([(''frame'', PyInt 2)], 1), Wait 1,
        CloseEvent 0,
        OpenEvent 1, ExtractData 1 0, ProcessData 0, Isend 2 ([(''frame'', PyInt 0)], 1),
        ExtractData 1 1, ProcessData 1, Wait 2, Isend 3 ([(''frame'', PyInt 1)], 1),
        ExtractData 1 2, ProcessData 2, Wait 3, Isend 4 ([(''frame'', PyInt 2)], 1), Wait 4,
        CloseEvent 1]"
    by (simp add: node_eval)
  have s: "sent (history (process_event (example_layers 3 [(0, 1)] None) 0 (init_processing 1 2 None)))
     = [([(''frame'', PyInt 0)], 1), ([(''frame'', PyInt 2)], 1)]"
    by (simp add: node_eval)
  from extraction_error_skips_only_that_frame [OF h,
      of "init_processing 1 2 None" "[(False, 0), (False, 1)]"]
  have "opened (history (event_loop (example_layers 3 [(0, 1)] None) [(False, 0), (False, 1)]
        (init_processing 1 2 None))) = [0, 1]"
    by (simp add: init_processing_def)
  with h t s show ?thesis by simp
qed




section \<open>Properties of the offline event generator\<close>

lemma py_slice_nonneg:
  "0 \<le> a \<Longrightarrow> 0 \<le> b \<Longrightarrow> py_slice xs a b = take (nat b - nat a) (drop (nat a) xs)"
  unfolding py_slice_def slice_bound_def Let_def
  by (auto simp: min_def take_all_iff)

lemma slice_of_rank:
  assumes "0 \<le> c" "1 \<le> r"
  shows "py_slice xs ((r - 1) * c) (r * c) = take (nat c) (drop (nat (r - 1) * nat c) xs)"
proof -
  have a: "nat ((r - 1) * c) = nat (r - 1) * nat c"
    using assms by (simp add: nat_mult_distrib)
  have "nat (r * c) = nat (r - 1) * nat c + nat c"
  proof -
    have "r * c = (r - 1) * c + c" by (simp add: algebra_simps)
    then have "nat (r * c) = nat ((r - 1) * c) + nat c"
      using assms by (simp add: nat_add_distrib)
    with a show ?thesis by simp
  qed
  then have b: "nat (r * c) - nat (r - 1) * nat c = nat c"
    by simp
  have "py_slice xs ((r - 1) * c) (r * c)
        = take (nat (r * c) - nat ((r - 1) * c)) (drop (nat ((r - 1) * c)) xs)"
    using assms by (intro py_slice_nonneg) simp_all
  then show ?thesis
    by (simp only: a b)
qed

lemma concat_slices:
  "concat (map (\<lambda>r. take c (drop (nat (r - 1) * c) xs)) [1..int k]) = take (k * c) xs"
proof (induction k)
  case 0
  then show ?case by simp
next
  case (Suc k)
  have "[1..int (Suc k)] = [1..int k] @ [int k + 1]"
    by (simp add: upto_rec2)
  moreover have "take (Suc k * c) xs = take (k * c) xs @ take c (drop (k * c) xs)"
    using take_add [of "k * c" c xs] by (simp add: add.commute)
  ultimately show ?case
    using Suc by simp
qed

lemma ceiling_covers:
  assumes "1 \<le> w"
  shows "int n \<le> w * \<lceil>real n / real_of_int w\<rceil>" "0 \<le> \<lceil>real n / real_of_int w\<rceil>"
proof -
  have "real n / real_of_int w \<le> of_int \<lceil>real n / real_of_int w\<rceil>"
    by (rule le_of_int_ceiling)
  then have "real n \<le> real_of_int w * of_int \<lceil>real n / real_of_int w\<rceil>"
    using assms pos_divide_le_eq [of "real_of_int w" "real n" "of_int \<lceil>real n / real_of_int w\<rceil>"]
    by (simp add: mult.commute)
  then have "real_of_int (int n) \<le> real_of_int (w * \<lceil>real n / real_of_int w\<rceil>)"
    by simp
  then show "int n \<le> w * \<lceil>real n / real_of_int w\<rceil>"
    by (simp only: of_int_le_iff)
  have "0 \<le> real n / real_of_int w" using assms by simp
  then show "0 \<le> \<lceil>real n / real_of_int w\<rceil>"
    by (simp add: ceiling_le_iff order_trans) 
qed


lemma take_drop_index_range:
  "take n (drop i xs) = map ((!) xs) [min (length xs) i..<min (length xs) (i + n)]"
proof (rule nth_equalityI)
  show "length (take n (drop i xs)) = length (map ((!) xs) [min (length xs) i..<min (length xs) (i + n)])"
    by (auto simp: min_def)
next
  fix k assume "k < length (take n (drop i xs))"
  then have k: "k < n" "i + k < length xs" by auto
  then have "min (length xs) i = i" "min (length xs) i + k < min (length xs) (i + n)"
    by (simp_all add: min_def)
  then show "take n (drop i xs) ! k = map ((!) xs) [min (length xs) i..<min (length xs) (i + n)] ! k"
    using k by simp
qed

lemma generator_single_run:
  assumes "2 \<le> mpi_pool_size" "1 \<le> rnk"
  shows "psana_offline_event_generator [run_times] rnk mpi_pool_size
         = Inr (take (nat \<lceil>real (length run_times) / real_of_int (mpi_pool_size - 1)\<rceil>)
                 (drop (nat (rnk - 1) * nat \<lceil>real (length run_times) / real_of_int (mpi_pool_size - 1)\<rceil>)
                    run_times))"
  using assms ceiling_covers(2) [of "mpi_pool_size - 1" "length run_times"]
  by (simp add: num_events_curr_node_def slice_of_rank)

section \<open>Claims about the offline event generator\<close>

text \<open>
  Claim C3. In a pool with at least one processing node, and for a run of any length
  \<open>T\<close>, the processing node of rank \<open>r\<close> is given the events at the indices from
  \<open>(r - 1) * c\<close> up to, not including, \<open>r * c\<close>, both clipped to \<open>T\<close>, where \<open>c\<close> is
  \<open>T\<close> divided by the number of processing nodes, rounded up. Put one after the other
  in the order of the ranks, these slices are the run itself: every event is in one
  slice and in one only. The witness is the pool of four with eleven events: the
  three processing nodes are given 4, 4 and 3 events.
\<close>

theorem offline_slices_partition_stream:
  assumes "2 \<le> mpi_pool_size"
  shows "(let T = length run_times;
              c = nat \<lceil>real T / real_of_int (mpi_pool_size - 1)\<rceil>;
              slices = map (\<lambda>rank. map ((!) run_times)
                              [min T ((nat rank - 1) * c)..<min T (nat rank * c)])
                         [1..mpi_pool_size - 1]
          in map (\<lambda>rank. psana_offline_event_generator [run_times] rank mpi_pool_size)
               [1..mpi_pool_size - 1] = map Inr slices
             \<and> concat slices = run_times)"
proof -
  define T where "T = length run_times"
  define c where "c = nat \<lceil>real T / real_of_int (mpi_pool_size - 1)\<rceil>"
  define part where "part = (\<lambda>rank::int. take c (drop (nat (rank - 1) * c) run_times))"
  have range: "part rank = map ((!) run_times) [min T ((nat rank - 1) * c)..<min T (nat rank * c)]"
    if "1 \<le> rank" for rank
  proof -
    have "nat (rank - 1) = nat rank - 1" by simp
    moreover have "(nat rank - 1) * c + c = nat rank * c"
      using that by (cases "nat rank") simp_all
    ultimately show ?thesis
      using take_drop_index_range [of c "(nat rank - 1) * c" run_times]
      by (simp add: part_def T_def)
  qed
  have gen: "psana_offline_event_generator [run_times] rank mpi_pool_size = Inr (part rank)"
    if "1 \<le> rank" for rank
    using generator_single_run [OF assms that, of run_times]
    by (simp add: part_def c_def T_def)
  have m1: "map (\<lambda>rank. psana_offline_event_generator [run_times] rank mpi_pool_size)
               [1..mpi_pool_size - 1]
            = map Inr (map part [1..mpi_pool_size - 1])"
  proof -
    have "map (\<lambda>rank. psana_offline_event_generator [run_times] rank mpi_pool_size)
               [1..mpi_pool_size - 1]
          = map (\<lambda>rank. Inr (part rank)) [1..mpi_pool_size - 1]"
      by (intro map_cong refl gen) simp
    then show ?thesis by (simp add: comp_def)
  qed
  have m2: "map part [1..mpi_pool_size - 1]
            = map (\<lambda>rank. map ((!) run_times)
                              [min T ((nat rank - 1) * c)..<min T (nat rank * c)])
                         [1..mpi_pool_size - 1]"
    by (intro map_cong refl range) simp
  have "int T \<le> (mpi_pool_size - 1) * \<lceil>real T / real_of_int (mpi_pool_size - 1)\<rceil>"
    using assms by (intro ceiling_covers) simp
  then have "int T \<le> int (nat (mpi_pool_size - 1) * c)"
    using assms ceiling_covers(2) [of "mpi_pool_size - 1" T] by (simp add: c_def)
  then have cover: "T \<le> nat (mpi_pool_size - 1) * c"
    by (simp only: of_nat_le_iff)
  have "concat (map part [1..int (nat (mpi_pool_size - 1))]) = take (nat (mpi_pool_size - 1) * c) run_times"
    unfolding part_def by (rule concat_slices)
  then have m3: "concat (map part [1..mpi_pool_size - 1]) = run_times"
    using assms cover by (simp add: T_def)
  show ?thesis
    unfolding Let_def T_def [symmetric] c_def [symmetric]
    using m1 [unfolded m2] m3 [unfolded m2] by (rule conjI)
qed


theorem offline_slices_partition_stream_witness:
  "(2::int) \<le> 4
   \<and> map (\<lambda>rank. psana_offline_event_generator [[0, 1, 2, 3, 4, 5, 6, 7, 8, 9, 10::nat]] rank 4) [1..4 - 1]
     = [Inr [0, 1, 2, 3], Inr [4, 5, 6, 7], Inr [8, 9, 10]]
   \<and> map length [[0, 1, 2, 3], [4, 5, 6, 7], [8, 9, 10::nat]] = [4, 4, 3]
   \<and> concat [[0, 1, 2, 3], [4, 5, 6, 7], [8, 9, 10::nat]] = [0, 1, 2, 3, 4, 5, 6, 7, 8, 9, 10]"
proof -
  have p: "(2::int) \<le> 4" by simp
  have h: "map (\<lambda>rank. psana_offline_event_generator [[0, 1, 2, 3, 4, 5, 6, 7, 8, 9, 10::nat]] rank 4) [1..4 - 1]
     = [Inr [0, 1, 2, 3], Inr [4, 5, 6, 7], Inr [8, 9, 10]]"
    by (simp add: num_events_curr_node_def py_slice_def slice_bound_def upto_rec1)
  from offline_slices_partition_stream [OF p, of "[0, 1, 2, 3, 4, 5, 6, 7, 8, 9, 10::nat]"] h
  show ?thesis by simp
qed

section \<open>Properties of \<^verbatim>\<open>get_param\<close>\<close>

lemma map_of_in_keys: "in_keys k d \<longleftrightarrow> map_of d k \<noteq> None"
  by (simp add: in_keys_def map_of_eq_None_iff)

lemma get_param_unchanged: "snd (get_param self g k t required) = self"
  by (simp add: get_param_def Let_def split: pyval.splits)

lemma get_param_missing_group:
  "map_of (monitor_params self) g = None \<Longrightarrow> fst (get_param self g k t required) = Inl OmMissingParameterGroupError"
  by (simp add: get_param_def map_of_in_keys)

lemma get_param_typed:
  assumes "map_of (monitor_params self) g = Some (PyDict grp)"
  shows "fst (get_param self g k (Some t) True)
         = (if dict_get grp k = PyNone then Inl OmMissingParameterError
            else if type_accepted t (dict_get grp k) then Inr (dict_get grp k)
            else Inl OmWrongParameterTypeError)"
  using assms
  by (simp add: get_param_def map_of_in_keys dict_get_def Let_def type_accepted_def)


lemma dict_get_Some: "map_of d k = Some v \<Longrightarrow> dict_get d k = v"
  by (simp add: dict_get_def)

lemma dict_get_value: "dict_get d k = x \<and> x \<noteq> PyNone \<longleftrightarrow> map_of d k = Some x \<and> x \<noteq> PyNone"
  by (auto simp: dict_get_def split: option.splits)

lemmas params_eval = get_param_def example_params_def in_keys_def dict_get_def Let_def

section \<open>Claims about \<^verbatim>\<open>get_param\<close>\<close>

text \<open>
  Claim C7 says that a required, typed lookup returns the stored value exactly when the
  group and the key exist, the value is not null and its type matches the requested
  one, and raises a configuration error in every other case. A stored integer does not
  have the type \<^verbatim>\<open>float\<close>, and yet the lookup with \<^verbatim>\<open>float\<close> returns it.
\<close>

theorem get_param_float_returns_int:
  "fst (get_param example_params ''data_retrieval_layer'' ''fallback_beam_energy_in_eV''
         (Some TFloat) True) = Inr (PyInt 9000)
   \<and> \<not> isinstance (PyInt 9000) TFloat"
  by (simp add: params_eval)

text \<open>
  Claim C7 as amended, for a tree in which the group, if present, is a dictionary. The
  lookup with \<^verbatim>\<open>required=True\<close> and a requested type leaves the stored tree as it
  was. It returns a value \<open>x\<close> exactly when the group exists, the key is bound in it to
  \<open>x\<close>, \<open>x\<close> is not null, and \<open>x\<close> is accepted for the requested type: a text or
  byte string for \<^verbatim>\<open>str\<close>, a float or an integer for \<^verbatim>\<open>float\<close>, an instance of
  the class for any other type. Otherwise it raises
  \<^verbatim>\<open>OmMissingParameterGroupError\<close> when the group is missing,
  \<^verbatim>\<open>OmMissingParameterError\<close> when the key is missing or bound to null, and
  \<^verbatim>\<open>OmWrongParameterTypeError\<close> when the value is not accepted for the type.
\<close>

theorem get_param_required_typed:
  assumes "\<forall>v. map_of (monitor_params self) g = Some v \<longrightarrow> (\<exists>grp. v = PyDict grp)"
  shows "snd (get_param self g k (Some t) True) = self
       \<and> (fst (get_param self g k (Some t) True) = Inr x \<longleftrightarrow>
            (\<exists>grp. map_of (monitor_params self) g = Some (PyDict grp)
                   \<and> map_of grp k = Some x \<and> x \<noteq> PyNone \<and> type_accepted t x))
       \<and> (map_of (monitor_params self) g = None \<longrightarrow>
            fst (get_param self g k (Some t) True) = Inl OmMissingParameterGroupError)
       \<and> (\<forall>grp. map_of (monitor_params self) g = Some (PyDict grp) \<longrightarrow>
            (dict_get grp k = PyNone \<longrightarrow>
               fst (get_param self g k (Some t) True) = Inl OmMissingParameterError)
            \<and> (dict_get grp k \<noteq> PyNone \<and> \<not> type_accepted t (dict_get grp k) \<longrightarrow>
               fst (get_param self g k (Some t) True) = Inl OmWrongParameterTypeError))"
proof (cases "map_of (monitor_params self) g")
  case None
  then show ?thesis
    by (simp add: get_param_unchanged get_param_missing_group)
next
  case (Some v)
  with assms obtain grp where g: "map_of (monitor_params self) g = Some (PyDict grp)"
    by auto
  have "(fst (get_param self g k (Some t) True) = Inr x)
        = (dict_get grp k = x \<and> x \<noteq> PyNone \<and> type_accepted t x)"
    by (auto simp: get_param_typed [OF g])
  also have "\<dots> = (map_of grp k = Some x \<and> x \<noteq> PyNone \<and> type_accepted t x)"
    using dict_get_value [of grp k x] by blast
  also have "\<dots> = (\<exists>grp. map_of (monitor_params self) g = Some (PyDict grp)
                   \<and> map_of grp k = Some x \<and> x \<noteq> PyNone \<and> type_accepted t x)"
    using g by auto
  finally have a: "fst (get_param self g k (Some t) True) = Inr x \<longleftrightarrow>
            (\<exists>grp. map_of (monitor_params self) g = Some (PyDict grp)
                   \<and> map_of grp k = Some x \<and> x \<noteq> PyNone \<and> type_accepted t x)" .
  have b: "\<forall>grp. map_of (monitor_params self) g = Some (PyDict grp) \<longrightarrow>
            (dict_get grp k = PyNone \<longrightarrow>
               fst (get_param self g k (Some t) True) = Inl OmMissingParameterError)
            \<and> (dict_get grp k \<noteq> PyNone \<and> \<not> type_accepted t (dict_get grp k) \<longrightarrow>
               fst (get_param self g k (Some t) True) = Inl OmWrongParameterTypeError)"
    by (simp add: get_param_typed)
  have c: "map_of (monitor_params self) g = None \<longrightarrow>
            fst (get_param self g k (Some t) True) = Inl OmMissingParameterGroupError"
    using g by simp
  from a b c get_param_unchanged [of self g k "Some t" True] show ?thesis
    by blast
qed

theorem get_param_required_typed_witness:
  "map_of (monitor_params example_params) ''crystallography''
     = Some (PyDict [(''geometry_file'', PyStr ''pilatus.geom''), (''min_snr'', PyFloat 6)])
   \<and> get_param example_params ''crystallography'' ''geometry_file'' (Some TStr) True
     = (Inr (PyStr ''pilatus.geom''), example_params)
   \<and> fst (get_param example_params ''crystallography'' ''min_snr'' (Some TInt) True)
     = Inl OmWrongParameterTypeError
   \<and> fst (get_param example_params ''crystallography'' ''max_snr'' (Some TInt) True)
     = Inl OmMissingParameterError"
proof -
  have wf: "\<forall>v. map_of (monitor_params example_params) ''crystallography'' = Some v
              \<longrightarrow> (\<exists>grp. v = PyDict grp)"
    by (simp add: example_params_def)
  have g: "map_of (monitor_params example_params) ''crystallography''
     = Some (PyDict [(''geometry_file'', PyStr ''pilatus.geom''), (''min_snr'', PyFloat 6)])"
    by (simp add: example_params_def)
  from get_param_required_typed [OF wf, of "''geometry_file''" TStr "PyStr ''pilatus.geom''"]
  have "snd (get_param example_params ''crystallography'' ''geometry_file'' (Some TStr) True) = example_params"
    and "fst (get_param example_params ''crystallography'' ''geometry_file'' (Some TStr) True)
         = Inr (PyStr ''pilatus.geom'')"
    by (simp_all add: g type_accepted_def)
  then have a: "get_param example_params ''crystallography'' ''geometry_file'' (Some TStr) True
     = (Inr (PyStr ''pilatus.geom''), example_params)"
    by (simp add: prod_eq_iff)
  from get_param_required_typed [OF wf, of "''min_snr''" TInt PyNone]
  have b: "fst (get_param example_params ''crystallography'' ''min_snr'' (Some TInt) True)
     = Inl OmWrongParameterTypeError"
    by (simp add: g type_accepted_def dict_get_def)
  from get_param_required_typed [OF wf, of "''max_snr''" TInt PyNone]
  have c: "fst (get_param example_params ''crystallography'' ''max_snr'' (Some TInt) True)
     = Inl OmMissingParameterError"
    by (simp add: g dict_get_def)
  from g a b c show ?thesis by simp
qed

text \<open>
  Claim C10. In a group that is a dictionary: when the requested type is
  \<^verbatim>\<open>float\<close>, a stored integer is returned as it is, with no error; when the
  requested type is \<^verbatim>\<open>str\<close>, every text or byte string is returned; for each of
  the other types a stored value that is not null is returned when it is an instance
  of the type and \<^verbatim>\<open>OmWrongParameterTypeError\<close> is raised when it is not.
\<close>

theorem get_param_widened_checks:
  assumes "map_of (monitor_params self) g = Some (PyDict grp)"
  shows "(map_of grp k = Some (PyInt i) \<longrightarrow>
            fst (get_param self g k (Some TFloat) required) = Inr (PyInt i))
       \<and> (map_of grp k = Some v \<and> is_basestring v \<longrightarrow>
            fst (get_param self g k (Some TStr) required) = Inr v)
       \<and> (map_of grp k = Some v \<and> v \<noteq> PyNone \<and> t \<noteq> TStr \<and> t \<noteq> TFloat \<longrightarrow>
            fst (get_param self g k (Some t) required)
            = (if isinstance v t then Inr v else Inl OmWrongParameterTypeError))"
  using assms
  by (auto simp: get_param_def map_of_in_keys dict_get_def Let_def)

theorem get_param_widened_checks_witness:
  "map_of (monitor_params example_params) ''data_retrieval_layer''
     = Some (PyDict [(''num_frames_in_event_to_process'', PyInt 2),
                     (''fallback_beam_energy_in_eV'', PyInt 9000),
                     (''psana_calibration_directory'', PyNone)])
   \<and> fst (get_param example_params ''data_retrieval_layer'' ''fallback_beam_energy_in_eV''
           (Some TFloat) True) = Inr (PyInt 9000)
   \<and> fst (get_param example_params ''data_retrieval_layer'' ''fallback_beam_energy_in_eV''
           (Some TStr) True) = Inl OmWrongParameterTypeError
   \<and> fst (get_param example_params ''data_retrieval_layer'' ''fallback_beam_energy_in_eV''
           (Some TBool) False) = Inl OmWrongParameterTypeError"
proof -
  have g: "map_of (monitor_params example_params) ''data_retrieval_layer''
     = Some (PyDict [(''num_frames_in_event_to_process'', PyInt 2),
                     (''fallback_beam_energy_in_eV'', PyInt 9000),
                     (''psana_calibration_directory'', PyNone)])"
    by (simp add: example_params_def)
  from get_param_widened_checks [OF g, where k = "''fallback_beam_energy_in_eV''" and i = 9000
      and v = "PyInt 9000" and required = True and t = TInt]
  have a: "fst (get_param example_params ''data_retrieval_layer'' ''fallback_beam_energy_in_eV''
           (Some TFloat) True) = Inr (PyInt 9000)"
    by simp
  from get_param_widened_checks [OF g, where k = "''fallback_beam_energy_in_eV''" and i = 9000
      and v = "PyInt 9000" and required = False and t = TBool]
  have b: "fst (get_param example_params ''data_retrieval_layer'' ''fallback_beam_energy_in_eV''
           (Some TBool) False) = Inl OmWrongParameterTypeError"
    by simp
  have c: "fst (get_param example_params ''data_retrieval_layer'' ''fallback_beam_energy_in_eV''
           (Some TStr) True) = Inl OmWrongParameterTypeError"
    by (simp add: params_eval)
  from g a b c show ?thesis by simp
qed

end
